theory Spec2Isabelle
  imports Main "HOL-Library.Sublist"
begin

section \<open>Python values, dictionaries and string operations\<close>

text \<open>
  The profile handed to the template engine is a Python dictionary from field names to
  values. The normalizer stores strings and booleans in it; \<open>None\<close> is what
  \<^verbatim>\<open>dict.get\<close> yields for an absent key.
\<close>

datatype pyval = PNone | PBool bool | PStr string

text \<open>\<^verbatim>\<open>str(v)\<close>\<close>

fun py_str :: "pyval \<Rightarrow> string" where
  "py_str PNone = ''None''"
| "py_str (PBool True) = ''True''"
| "py_str (PBool False) = ''False''"
| "py_str (PStr s) = s"

text \<open>The truth value of \<^verbatim>\<open>v\<close> in a condition.\<close>

fun truthy :: "pyval \<Rightarrow> bool" where
  "truthy PNone = False"
| "truthy (PBool b) = b"
| "truthy (PStr s) = (s \<noteq> [])"

type_synonym pydict = "string \<rightharpoonup> pyval"

text \<open>\<^verbatim>\<open>d.get(k)\<close> and \<^verbatim>\<open>d.get(k, default)\<close>\<close>

definition dict_get :: "pydict \<Rightarrow> string \<Rightarrow> pyval" where
  "dict_get d k = (case d k of None \<Rightarrow> PNone | Some v \<Rightarrow> v)"

definition dict_get_default :: "pydict \<Rightarrow> string \<Rightarrow> pyval \<Rightarrow> pyval" where
  "dict_get_default d k dflt = (case d k of None \<Rightarrow> dflt | Some v \<Rightarrow> v)"

text \<open>
  \<^verbatim>\<open>text.replace(old, new)\<close>: every occurrence of \<open>old\<close>, found from left to
  right without overlap, becomes \<open>new\<close>; the inserted text is not scanned again. With an
  empty \<open>old\<close> Python inserts \<open>new\<close> before every character and at the end.
\<close>

function str_replace :: "string \<Rightarrow> string \<Rightarrow> string \<Rightarrow> string" where
  "str_replace [] old new = (if old = [] then new else [])"
| "str_replace (c # cs) old new =
     (if old = [] then new @ c # str_replace cs old new
      else if prefix old (c # cs) then new @ str_replace (drop (length old) (c # cs)) old new
      else c # str_replace cs old new)"
  by pat_completeness auto
termination
  by (relation "measure (\<lambda>(t, old, new). length t)") auto

text \<open>
  The first occurrence of \<open>pat\<close> in a text: the text before it and the text after it.
\<close>

fun str_find :: "string \<Rightarrow> string \<Rightarrow> (string \<times> string) option" where
  "str_find pat [] = (if pat = [] then Some ([], []) else None)"
| "str_find pat (c # cs) =
     (if prefix pat (c # cs) then Some ([], drop (length pat) (c # cs))
      else (case str_find pat cs of None \<Rightarrow> None | Some (b, a) \<Rightarrow> Some (c # b, a)))"

lemma str_find_Some: "str_find pat t = Some (b, a) \<Longrightarrow> t = b @ pat @ a"
proof (induction t arbitrary: b)
  case Nil
  then show ?case by (simp split: if_splits)
next
  case (Cons c cs)
  show ?case
  proof (cases "prefix pat (c # cs)")
    case True
    with Cons.prems have "b = []" "a = drop (length pat) (c # cs)" by simp_all
    moreover from True have "c # cs = pat @ drop (length pat) (c # cs)"
      by (metis append_eq_conv_conj prefix_def)
    ultimately show ?thesis by simp
  next
    case False
    with Cons.prems obtain b' where "str_find pat cs = Some (b', a)" "b = c # b'"
      by (auto split: option.splits)
    with Cons.IH show ?thesis by simp
  qed
qed

section \<open>The template engine (data.py)\<close>

definition COMPANY_NAME :: string where
  "COMPANY_NAME = ''Kaiser X Labs''"

definition COMPANY_WEBSITE :: string where
  "COMPANY_WEBSITE = ''http://www.kaiser-x.com/''"

definition NORMAL_REPLACEMENT :: string where
  "NORMAL_REPLACEMENT = ''normal''"

definition CUSTOM_PARAGRAPH_WITH_VARIABLE :: string where
  "CUSTOM_PARAGRAPH_WITH_VARIABLE = ''customParagraphWithVariable''"

definition CUSTOM_PARAGRAPH_WITHOUT_VARIABLE :: string where
  "CUSTOM_PARAGRAPH_WITHOUT_VARIABLE = ''customParagraphWithoutVariable''"

text \<open>
  The three markers of a keyword, as the f-strings of the source build them:
  \<^verbatim>\<open>{keyword}\<close>, \<^verbatim>\<open>{keyword/}\<close> and \<^verbatim>\<open>{/keyword}\<close>.
\<close>

definition var_tag :: "string \<Rightarrow> string" where
  "var_tag keyword = ''{'' @ keyword @ ''}''"

definition open_tag :: "string \<Rightarrow> string" where
  "open_tag keyword = ''{'' @ keyword @ ''/}''"

definition close_tag :: "string \<Rightarrow> string" where
  "close_tag keyword = ''{/'' @ keyword @ ''}''"

definition remove_tags :: "string \<Rightarrow> string \<Rightarrow> string" where
  "remove_tags text keyword =
     str_replace (str_replace text (open_tag keyword) []) (close_tag keyword) []"

text \<open>
  \<^verbatim>\<open>remove_everything_between_tags\<close> interpolates the keyword into a regular expression
  without escaping it. The characters below are the operators of Python's \<^verbatim>\<open>re\<close>; a
  keyword free of them makes the pattern the literal opening marker, \<^verbatim>\<open>.*?\<close> under
  \<^verbatim>\<open>DOTALL\<close>, and the literal closing marker. (The braces of the markers themselves are
  read literally: the slash before or after the keyword keeps them from forming a
  repetition count.) With any other keyword \<^verbatim>\<open>re.compile\<close> raises or compiles some
  other pattern; the model stops there with \<open>PatternNotLiteral\<close>.
\<close>

datatype error = PatternNotLiteral

definition regex_operators :: "char list" where
  "regex_operators = ''.^$*+?{}[]|()'' @ [CHR 0x5C]"

definition regex_literal :: "string \<Rightarrow> bool" where
  "regex_literal keyword = list_all (\<lambda>c. c \<notin> set regex_operators) keyword"

text \<open>
  \<^verbatim>\<open>re.sub(pattern, "", text)\<close> for the literal pattern: the scan finds the leftmost
  opening marker that has a closing marker after it, the lazy \<^verbatim>\<open>.*?\<close> stops at the first
  such closing marker, the span from the one to the other is dropped, and the scan goes on
  behind it. An opening marker with no closing marker behind it matches nothing, and then
  neither does any later one, so the rest of the text stays as it is.
\<close>

function delete_blocks :: "string \<Rightarrow> string \<Rightarrow> string" where
  "delete_blocks keyword text =
     (case str_find (open_tag keyword) text of
        None \<Rightarrow> text
      | Some (before, rest) \<Rightarrow>
          (case str_find (close_tag keyword) rest of
             None \<Rightarrow> text
           | Some (inner, after) \<Rightarrow> before @ delete_blocks keyword after))"
  by pat_completeness auto
termination
proof (relation "measure (\<lambda>(k, t). length t)", goal_cases)
  case 1
  show ?case by simp
next
  case (2 k t p b r q i a)
  from 2(1,2) have "t = b @ open_tag k @ r"
    by (simp add: str_find_Some)
  moreover from 2(3,4) have "r = i @ close_tag k @ a"
    by (simp add: str_find_Some)
  ultimately show ?case by (simp add: open_tag_def)
qed

definition remove_everything_between_tags :: "string \<Rightarrow> string \<Rightarrow> error + string" where
  "remove_everything_between_tags text keyword =
     (if regex_literal keyword then Inr (delete_blocks keyword text)
      else Inl PatternNotLiteral)"

text \<open>
  In the branch of a truthy \<^verbatim>\<open>data.get(keyword)\<close> the key is present, so
  \<^verbatim>\<open>data[keyword]\<close> reads the same value and raises nothing.
\<close>

definition replace_template_variable ::
  "string \<Rightarrow> string \<Rightarrow> string \<Rightarrow> pydict \<Rightarrow> error + string" where
  "replace_template_variable text keyword operator data =
     (if operator = NORMAL_REPLACEMENT then
        Inr (str_replace text (var_tag keyword)
               (py_str (dict_get_default data keyword (PStr []))))
      else if operator = CUSTOM_PARAGRAPH_WITH_VARIABLE then
        (if truthy (dict_get data keyword) then
           Inr (str_replace (remove_tags text keyword) (var_tag keyword)
                  (py_str (dict_get data keyword)))
         else remove_everything_between_tags text keyword)
      else if operator = CUSTOM_PARAGRAPH_WITHOUT_VARIABLE then
        (if dict_get data keyword = PBool True then Inr (remove_tags text keyword)
         else remove_everything_between_tags text keyword)
      else Inr text)"

text \<open>
  The loop of \<^verbatim>\<open>build_signature\<close> over the list of replacements; a failure of one
  pass ends the run.
\<close>

fun apply_replacements :: "(string \<times> string) list \<Rightarrow> string \<Rightarrow> pydict \<Rightarrow> error + string" where
  "apply_replacements [] html_template employee_data = Inr html_template"
| "apply_replacements ((keyword, operator) # rest) html_template employee_data =
     (case replace_template_variable html_template keyword operator employee_data of
        Inl e \<Rightarrow> Inl e
      | Inr t \<Rightarrow> apply_replacements rest t employee_data)"

definition common_replacements :: "(string \<times> string) list" where
  "common_replacements =
     [(''lastName'', NORMAL_REPLACEMENT),
      (''address'', NORMAL_REPLACEMENT),
      (''phone'', CUSTOM_PARAGRAPH_WITH_VARIABLE),
      (''email'', NORMAL_REPLACEMENT)]"

definition additional_replacements :: "(string \<times> string) list" where
  "additional_replacements =
     [(''firstName'', NORMAL_REPLACEMENT),
      (''jobtitle'', NORMAL_REPLACEMENT),
      (''managementRole'', CUSTOM_PARAGRAPH_WITH_VARIABLE),
      (''pronouns'', CUSTOM_PARAGRAPH_WITH_VARIABLE),
      (''gernePerDu'', CUSTOM_PARAGRAPH_WITHOUT_VARIABLE),
      (''conditionalLineBreak'', CUSTOM_PARAGRAPH_WITHOUT_VARIABLE),
      (''mobile'', CUSTOM_PARAGRAPH_WITH_VARIABLE)]"

definition replacements_for :: "pydict \<Rightarrow> (string \<times> string) list" where
  "replacements_for employee_data =
     (if truthy (dict_get employee_data ''technicalUser'') then common_replacements
      else common_replacements @ additional_replacements)"

definition build_signature :: "string \<Rightarrow> pydict \<Rightarrow> error + string" where
  "build_signature html_template employee_data =
     (case apply_replacements (replacements_for employee_data) html_template employee_data of
        Inl e \<Rightarrow> Inl e
      | Inr t \<Rightarrow>
          Inr (str_replace (str_replace t ''{company}'' COMPANY_NAME) ''{web}'' COMPANY_WEBSITE))"

section \<open>The profile normalizer (data.py)\<close>

text \<open>
  A raw directory record is the JSON object of the directory service, with the fields the
  retrieval asks for. Every key may be missing, which is \<open>None\<close> here; a key that is
  present holds a value of the type the service gives it.
\<close>

record user_name =
  givenName :: "string option"
  familyName :: "string option"

record phone_entry =
  phone_type :: "string option"
  phone_value :: "string option"

record address_entry =
  address_type :: "string option"
  address_formatted :: "string option"

record organization =
  org_title :: "string option"
  org_department :: "string option"

record personal_information =
  Pronouns :: "string option"
  GernePerDu :: "string option"

record contractual_information =
  Management_Role :: "string option"

record custom_schemas =
  Personal_Information :: "personal_information option"
  Contractual_Information :: "contractual_information option"

record user =
  orgUnitPath :: "string option"
  primaryEmail :: "string option"
  suspended :: "bool option"
  archived :: "bool option"
  name :: "user_name option"
  phones :: "phone_entry list option"
  addresses :: "address_entry list option"
  organizations :: "organization list option"
  customSchemas :: "custom_schemas option"

text \<open>\<^verbatim>\<open>d.get(key, "")\<close> on a string field, and on a field of a nested object that may
  be missing itself (\<^verbatim>\<open>d.get(outer, {}).get(key, "")\<close>).\<close>

definition get_str :: "string option \<Rightarrow> string" where
  "get_str v = (case v of None \<Rightarrow> [] | Some s \<Rightarrow> s)"

definition get_nested :: "'a option \<Rightarrow> ('a \<Rightarrow> string option) \<Rightarrow> string" where
  "get_nested obj field = (case obj of None \<Rightarrow> [] | Some x \<Rightarrow> get_str (field x))"

definition get_list :: "'a list option \<Rightarrow> 'a list" where
  "get_list v = (case v of None \<Rightarrow> [] | Some xs \<Rightarrow> xs)"

text \<open>
  The two loops of \<^verbatim>\<open>process_user_data\<close>. Neither has a \<^verbatim>\<open>break\<close>: every entry with
  the tag assigns the variable again.
\<close>

fun phone_loop :: "phone_entry list \<Rightarrow> string \<times> string \<Rightarrow> string \<times> string" where
  "phone_loop [] (phone, mobile) = (phone, mobile)"
| "phone_loop (phone_entry # rest) (phone, mobile) =
     (if phone_type phone_entry = Some ''work'' then
        phone_loop rest (get_str (phone_value phone_entry), mobile)
      else if phone_type phone_entry = Some ''mobile'' then
        phone_loop rest (phone, get_str (phone_value phone_entry))
      else phone_loop rest (phone, mobile))"

fun address_loop :: "address_entry list \<Rightarrow> string \<Rightarrow> string" where
  "address_loop [] address = address"
| "address_loop (address_entry # rest) address =
     (if address_type address_entry = Some ''work'' then
        address_loop rest (get_str (address_formatted address_entry))
      else address_loop rest address)"

definition process_user_data :: "user \<Rightarrow> pydict" where
  "process_user_data data =
     (let technical_user = (orgUnitPath data = Some ''/Orga Accounts'');
          email = get_str (primaryEmail data);
          first_name = get_nested (name data) givenName;
          last_name = get_nested (name data) familyName;
          (phone, mobile) = phone_loop (get_list (phones data)) ([], []);
          address = address_loop (get_list (addresses data)) []
      in if technical_user then
           map_of [(''technicalUser'', PBool True),
                   (''email'', PStr email),
                   (''lastName'', PStr last_name),
                   (''address'', PStr address),
                   (''phone'', PStr phone)]
         else
           (let (jobtitle, department) =
                  (case get_list (organizations data) of
                     [] \<Rightarrow> ([], [])
                   | org # _ \<Rightarrow> (get_str (org_title org), get_str (org_department org)));
                personal = (case customSchemas data of None \<Rightarrow> None
                            | Some cs \<Rightarrow> Personal_Information cs);
                contractual = (case customSchemas data of None \<Rightarrow> None
                               | Some cs \<Rightarrow> Contractual_Information cs);
                pronouns = get_nested personal Pronouns;
                gerne_per_du = (get_nested personal GernePerDu = ''yes'');
                conditional_line_break = (\<not> (pronouns = [] \<and> gerne_per_du = False));
                management_role = get_nested contractual Management_Role
            in map_of [(''technicalUser'', PBool False),
                       (''email'', PStr email),
                       (''firstName'', PStr first_name),
                       (''lastName'', PStr last_name),
                       (''jobtitle'', PStr jobtitle),
                       (''address'', PStr address),
                       (''department'', PStr department),
                       (''phone'', PStr phone),
                       (''mobile'', PStr mobile),
                       (''pronouns'', PStr pronouns),
                       (''gernePerDu'', PBool gerne_per_du),
                       (''conditionalLineBreak'', PBool conditional_line_break),
                       (''managementRole'', PStr management_role)]))"

section \<open>The relevance filter (sender.py)\<close>





section \<open>Texts as sequences of characters and markers\<close>

text \<open>
  A template in which every brace belongs to a marker is a sequence of tokens: a character
  other than a brace, or a marker \<^verbatim>\<open>{body}\<close> whose body holds no brace. The substitute
  marker of a keyword is \<open>Mark keyword\<close>, its opening marker \<open>Mark (keyword @ ''/'')\<close> and
  its closing marker \<open>Mark (''/'' @ keyword)\<close>.
\<close>

datatype token = Chr char | Mark string

fun flat :: "token \<Rightarrow> string" where
  "flat (Chr c) = [c]"
| "flat (Mark b) = ''{'' @ b @ ''}''"

definition flatten :: "token list \<Rightarrow> string" where
  "flatten ts = concat (map flat ts)"

definition brace_free :: "string \<Rightarrow> bool" where
  "brace_free s = (CHR ''{'' \<notin> set s \<and> CHR ''}'' \<notin> set s)"

fun wf_token :: "token \<Rightarrow> bool" where
  "wf_token (Chr c) = (c \<noteq> CHR ''{'' \<and> c \<noteq> CHR ''}'')"
| "wf_token (Mark b) = brace_free b"

text \<open>The tokens before and behind the first occurrence of a token.\<close>

fun split_at :: "token \<Rightarrow> token list \<Rightarrow> (token list \<times> token list) option" where
  "split_at m [] = None"
| "split_at m (t # ts) =
     (if t = m then Some ([], ts)
      else (case split_at m ts of None \<Rightarrow> None | Some (b, a) \<Rightarrow> Some (t # b, a)))"

lemma split_at_Some: "split_at m ts = Some (b, a) \<Longrightarrow> ts = b @ m # a"
  by (induction ts arbitrary: b) (auto split: if_splits option.splits)

text \<open>
  Block deletion on tokens: at an opening marker of the keyword that has a closing marker
  behind it, everything up to and including the first such closing marker is dropped; an
  opening marker with no closing marker behind it ends the scan and the rest stays.
\<close>

function drop_blocks :: "string \<Rightarrow> token list \<Rightarrow> token list" where
  "drop_blocks k [] = []"
| "drop_blocks k (t # ts) =
     (if t = Mark (k @ ''/'') then
        (case split_at (Mark (''/'' @ k)) ts of
           None \<Rightarrow> t # ts
         | Some (inner, rest) \<Rightarrow> drop_blocks k rest)
      else t # drop_blocks k ts)"
  by pat_completeness auto
termination
proof (relation "measure (\<lambda>(k, ts). length ts)", goal_cases)
  case 1
  show ?case by simp
next
  case (2 k t ts p i r)
  then have "ts = i @ Mark (''/'' @ k) # r" by (simp add: split_at_Some)
  then show ?case by simp
next
  case 3
  show ?case by simp
qed

section \<open>Notions used in the statements\<close>

text \<open>A custom attribute of the group \<^verbatim>\<open>Personal_Information\<close>, \<open>None\<close> when the group or
  the attribute is missing.\<close>

definition personal_attribute :: "user \<Rightarrow> (personal_information \<Rightarrow> string option) \<Rightarrow> string option" where
  "personal_attribute r field =
     (case customSchemas r of None \<Rightarrow> None
      | Some cs \<Rightarrow> (case Personal_Information cs of None \<Rightarrow> None | Some p \<Rightarrow> field p))"

text \<open>The value of the last entry of a list that carries a given tag, the empty string
  when no entry carries the tag or when that entry has no value.\<close>

definition last_tagged :: "('a \<Rightarrow> string option) \<Rightarrow> ('a \<Rightarrow> string option) \<Rightarrow> string \<Rightarrow> 'a list \<Rightarrow> string" where
  "last_tagged tag val t es =
     (case filter (\<lambda>e. tag e = Some t) es of [] \<Rightarrow> [] | w # ws \<Rightarrow> get_str (val (last (w # ws))))"

text \<open>Two directory records used as concrete inputs.\<close>

definition technical_example :: user where
  "technical_example =
     \<lparr>orgUnitPath = Some ''/Orga Accounts'',
      primaryEmail = Some ''support@kaiser-x.com'',
      suspended = Some False,
      archived = None,
      name = Some \<lparr>givenName = None, familyName = Some ''Support''\<rparr>,
      phones = Some [\<lparr>phone_type = Some ''work'', phone_value = Some ''089 1''\<rparr>],
      addresses = None,
      organizations = None,
      customSchemas = None\<rparr>"

definition staff_example :: user where
  "staff_example =
     \<lparr>orgUnitPath = Some ''/Staff'',
      primaryEmail = Some ''ana@kaiser-x.com'',
      suspended = None,
      archived = None,
      name = Some \<lparr>givenName = Some ''Ana'', familyName = Some ''Ng''\<rparr>,
      phones = Some [\<lparr>phone_type = Some ''work'', phone_value = Some ''089 1''\<rparr>,
                     \<lparr>phone_type = Some ''mobile'', phone_value = Some ''0170 1''\<rparr>,
                     \<lparr>phone_type = Some ''work'', phone_value = Some ''089 2''\<rparr>,
                     \<lparr>phone_type = Some ''mobile'', phone_value = Some ''0170 2''\<rparr>],
      addresses = Some [\<lparr>address_type = Some ''work'', address_formatted = Some ''Kaiserstr. 1''\<rparr>,
                        \<lparr>address_type = Some ''home'', address_formatted = Some ''Gartenweg 3''\<rparr>,
                        \<lparr>address_type = Some ''work'', address_formatted = Some ''Hauptstr. 2''\<rparr>],
      organizations = Some [\<lparr>org_title = Some ''Engineer'', org_department = None\<rparr>],
      customSchemas = Some \<lparr>Personal_Information =
                               Some \<lparr>Pronouns = None, GernePerDu = Some ''yes''\<rparr>,
                             Contractual_Information = None\<rparr>\<rparr>"

section \<open>Templates as trees\<close>

text \<open>
  A template whose conditional blocks are properly nested is a list of items: a literal
  character, a substitute marker, or a block of a keyword with the items between its
  opening and its closing marker. \<open>toks\<close> gives the tokens of the text and \<open>render\<close> the
  text itself.
\<close>

datatype item = Lit char | Var string | Block string "item list"

fun toks :: "item list \<Rightarrow> token list" where
  "toks [] = []"
| "toks (Lit c # rest) = Chr c # toks rest"
| "toks (Var x # rest) = Mark x # toks rest"
| "toks (Block b body # rest) = Mark (b @ ''/'') # toks body @ Mark (''/'' @ b) # toks rest"

definition render :: "item list \<Rightarrow> string" where
  "render items = flatten (toks items)"

text \<open>A keyword without regex operator characters and without a slash.\<close>

definition plain :: "string \<Rightarrow> bool" where
  "plain k = (regex_literal k \<and> CHR ''/'' \<notin> set k)"

text \<open>Literal characters are no braces and all keywords are plain.\<close>

fun names_ok :: "item list \<Rightarrow> bool" where
  "names_ok [] = True"
| "names_ok (Lit c # rest) = (c \<noteq> CHR ''{'' \<and> c \<noteq> CHR ''}'' \<and> names_ok rest)"
| "names_ok (Var x # rest) = (plain x \<and> names_ok rest)"
| "names_ok (Block b body # rest) = (plain b \<and> names_ok body \<and> names_ok rest)"

text \<open>
  The keywords of the substitute markers and of the blocks of a template, at any depth;
  the keywords with a substitute marker that is not inside a block of the same keyword;
  and the templates in which no block of \<open>k\<close> lies inside another block of \<open>k\<close>.
\<close>

fun vars :: "item list \<Rightarrow> string set" where
  "vars [] = {}"
| "vars (Lit c # rest) = vars rest"
| "vars (Var x # rest) = insert x (vars rest)"
| "vars (Block b body # rest) = vars body \<union> vars rest"

fun blocks :: "item list \<Rightarrow> string set" where
  "blocks [] = {}"
| "blocks (Lit c # rest) = blocks rest"
| "blocks (Var x # rest) = blocks rest"
| "blocks (Block b body # rest) = insert b (blocks body \<union> blocks rest)"

fun unguarded :: "item list \<Rightarrow> string set" where
  "unguarded [] = {}"
| "unguarded (Lit c # rest) = unguarded rest"
| "unguarded (Var x # rest) = insert x (unguarded rest)"
| "unguarded (Block b body # rest) = (unguarded body - {b}) \<union> unguarded rest"

fun nest_free :: "string \<Rightarrow> item list \<Rightarrow> bool" where
  "nest_free k [] = True"
| "nest_free k (Lit c # rest) = nest_free k rest"
| "nest_free k (Var x # rest) = nest_free k rest"
| "nest_free k (Block b body # rest) =
     ((b = k \<longrightarrow> k \<notin> blocks body) \<and> nest_free k body \<and> nest_free k rest)"

text \<open>
  Three operations on trees: putting a text in the place of every substitute marker of a
  keyword, removing the markers of every block of a keyword while keeping its content, and
  deleting every block of a keyword with its content.
\<close>

fun fill :: "string \<Rightarrow> string \<Rightarrow> item list \<Rightarrow> item list" where
  "fill k v [] = []"
| "fill k v (Lit c # rest) = Lit c # fill k v rest"
| "fill k v (Var x # rest) = (if x = k then map Lit v else [Var x]) @ fill k v rest"
| "fill k v (Block b body # rest) = Block b (fill k v body) # fill k v rest"

fun unwrap :: "string \<Rightarrow> item list \<Rightarrow> item list" where
  "unwrap k [] = []"
| "unwrap k (Lit c # rest) = Lit c # unwrap k rest"
| "unwrap k (Var x # rest) = Var x # unwrap k rest"
| "unwrap k (Block b body # rest) =
     (if b = k then unwrap k body else [Block b (unwrap k body)]) @ unwrap k rest"

fun prune :: "string \<Rightarrow> item list \<Rightarrow> item list" where
  "prune k [] = []"
| "prune k (Lit c # rest) = Lit c # prune k rest"
| "prune k (Var x # rest) = Var x # prune k rest"
| "prune k (Block b body # rest) =
     (if b = k then [] else [Block b (prune k body)]) @ prune k rest"

text \<open>One pass of the engine, on trees.\<close>

definition pass :: "pydict \<Rightarrow> string \<times> string \<Rightarrow> item list \<Rightarrow> item list" where
  "pass p r items =
     (case r of (k, operator) \<Rightarrow>
        if operator = NORMAL_REPLACEMENT then
          fill k (py_str (dict_get_default p k (PStr []))) items
        else if operator = CUSTOM_PARAGRAPH_WITH_VARIABLE then
          (if truthy (dict_get p k) then fill k (py_str (dict_get p k)) (unwrap k items)
           else prune k items)
        else if operator = CUSTOM_PARAGRAPH_WITHOUT_VARIABLE then
          (if dict_get p k = PBool True then unwrap k items else prune k items)
        else items)"

text \<open>
  A template is ready for a list of replacements when its names are in order and, for each
  entry: the keyword is plain; in the mode with a variable every substitute marker of the
  keyword is inside a block of the keyword; in the mode without a variable the keyword has
  no substitute marker; and in both conditional modes no block of the keyword is nested in
  another one.
\<close>

definition ready :: "(string \<times> string) list \<Rightarrow> item list \<Rightarrow> bool" where
  "ready rs items =
     (names_ok items \<and>
      list_all (\<lambda>(k, operator).
         plain k \<and>
         (operator = CUSTOM_PARAGRAPH_WITH_VARIABLE \<longrightarrow> k \<notin> unguarded items \<and> nest_free k items) \<and>
         (operator = CUSTOM_PARAGRAPH_WITHOUT_VARIABLE \<longrightarrow> k \<notin> vars items \<and> nest_free k items)) rs)"

text \<open>The profile values of the listed keywords hold no brace.\<close>

definition values_ok :: "pydict \<Rightarrow> (string \<times> string) list \<Rightarrow> bool" where
  "values_ok p rs = list_all (\<lambda>(k, operator). brace_free (py_str (dict_get p k))) rs"

text \<open>The keywords a list of replacements substitutes, and those it treats as blocks.\<close>

definition substituted :: "(string \<times> string) list \<Rightarrow> string set" where
  "substituted rs =
     fst ` set (filter (\<lambda>(k, operator). operator = NORMAL_REPLACEMENT \<or>
                                        operator = CUSTOM_PARAGRAPH_WITH_VARIABLE) rs)"

definition conditional :: "(string \<times> string) list \<Rightarrow> string set" where
  "conditional rs =
     fst ` set (filter (\<lambda>(k, operator). operator = CUSTOM_PARAGRAPH_WITH_VARIABLE \<or>
                                        operator = CUSTOM_PARAGRAPH_WITHOUT_VARIABLE) rs)"

text \<open>
  A template is well-formed for a list of replacements when it is ready for it, every
  substitute marker names a substituted keyword, \<^verbatim>\<open>company\<close> or \<^verbatim>\<open>web\<close>, and every
  block names a conditional keyword.
\<close>

definition well_formed :: "(string \<times> string) list \<Rightarrow> item list \<Rightarrow> bool" where
  "well_formed rs items =
     (ready rs items \<and>
      vars items \<subseteq> substituted rs \<union> {''company'', ''web''} \<and>
      blocks items \<subseteq> conditional rs)"

section \<open>Evaluation and auxiliary facts\<close>

lemmas engine_defs =
  replace_template_variable_def remove_everything_between_tags_def remove_tags_def
  regex_literal_def regex_operators_def NORMAL_REPLACEMENT_def
  CUSTOM_PARAGRAPH_WITH_VARIABLE_def CUSTOM_PARAGRAPH_WITHOUT_VARIABLE_def
  dict_get_def dict_get_default_def var_tag_def open_tag_def close_tag_def
  delete_blocks.simps



lemma replace_template_variable_returns:
  "regex_literal keyword \<Longrightarrow> \<exists>s. replace_template_variable text keyword operator data = Inr s"
  by (simp add: replace_template_variable_def remove_everything_between_tags_def)

lemma field_keywords_literal:
  "regex_literal ''lastName''" "regex_literal ''address''" "regex_literal ''phone''"
  "regex_literal ''email''" "regex_literal ''firstName''" "regex_literal ''jobtitle''"
  "regex_literal ''managementRole''" "regex_literal ''pronouns''" "regex_literal ''gernePerDu''"
  "regex_literal ''conditionalLineBreak''" "regex_literal ''mobile''"
  by (simp_all add: regex_literal_def regex_operators_def)

declare delete_blocks.simps [simp del]
declare drop_blocks.simps(2) [simp del]

lemma flatten_simps [simp]:
  "flatten [] = []"
  "flatten (t # ts) = flat t @ flatten ts"
  "flatten (xs @ ys) = flatten xs @ flatten ys"
  by (simp_all add: flatten_def)

lemma str_replace_skip:
  "CHR ''{'' \<notin> set s \<Longrightarrow>
   str_replace (s @ rest) (CHR ''{'' # x) new = s @ str_replace rest (CHR ''{'' # x) new"
  by (induction s) auto

lemma str_find_skip:
  "CHR ''{'' \<notin> set s \<Longrightarrow>
   str_find (CHR ''{'' # x) (s @ rest) =
     (case str_find (CHR ''{'' # x) rest of None \<Rightarrow> None | Some (b, a) \<Rightarrow> Some (s @ b, a))"
  by (induction s) (auto split: option.splits)

lemma prefix_until:
  "x \<notin> set b \<Longrightarrow> x \<notin> set b' \<Longrightarrow> prefix (b @ [x]) (b' @ x # rest) \<longleftrightarrow> b = b'"
proof (induction b arbitrary: b')
  case Nil
  then show ?case by (cases b') auto
next
  case (Cons c b)
  then show ?case by (cases b') auto
qed

lemma prefix_mark:
  assumes "brace_free m" "brace_free b"
  shows "prefix (flat (Mark m)) (flat (Mark b) @ rest) \<longleftrightarrow> m = b"
  using assms prefix_until [of "CHR ''}''" m b rest] by (simp add: brace_free_def)

lemma str_replace_mark:
  assumes "brace_free m" "brace_free b"
  shows "str_replace (flat (Mark b) @ rest) (flat (Mark m)) new =
           (if b = m then new else flat (Mark b)) @ str_replace rest (flat (Mark m)) new"
proof (cases "b = m")
  case True
  then show ?thesis by simp
next
  case False
  have np: "\<not> prefix (flat (Mark m)) (flat (Mark b) @ rest)"
    using prefix_mark [OF assms, of rest] False by blast
  have "str_replace (flat (Mark b) @ rest) (flat (Mark m)) new =
          CHR ''{'' # str_replace (b @ ''}'' @ rest) (flat (Mark m)) new"
    using np by simp
  also have "\<dots> = CHR ''{'' # b @ ''}'' @ str_replace rest (flat (Mark m)) new"
    using assms(2)
      str_replace_skip [where s = b and rest = "''}'' @ rest" and x = "m @ ''}''" and new = new]
      str_replace_skip [where s = "''}''" and rest = rest and x = "m @ ''}''" and new = new]
    by (simp add: brace_free_def)
  finally show ?thesis using False by simp
qed

lemma str_replace_flatten:
  "list_all wf_token ts \<Longrightarrow> brace_free m \<Longrightarrow>
   str_replace (flatten ts) (flat (Mark m)) new =
     concat (map (\<lambda>t. if t = Mark m then new else flat t) ts)"
proof (induction ts)
  case Nil
  then show ?case by simp
next
  case (Cons t ts)
  show ?case
  proof (cases t)
    case (Chr c)
    with Cons show ?thesis by auto
  next
    case (Mark b)
    with Cons.prems have bf: "brace_free b" and wf: "list_all wf_token ts" by simp_all
    have "str_replace (flatten (t # ts)) (flat (Mark m)) new =
            (if b = m then new else flat (Mark b)) @ str_replace (flatten ts) (flat (Mark m)) new"
      unfolding Mark flatten_simps by (rule str_replace_mark [OF Cons.prems(2) bf])
    with Cons.IH [OF wf Cons.prems(2)] Mark show ?thesis by simp
  qed
qed

lemma str_find_mark:
  assumes "brace_free m" "brace_free b"
  shows "str_find (flat (Mark m)) (flat (Mark b) @ rest) =
           (if b = m then Some ([], rest)
            else (case str_find (flat (Mark m)) rest of None \<Rightarrow> None
                  | Some (x, a) \<Rightarrow> Some (flat (Mark b) @ x, a)))"
proof (cases "b = m")
  case True
  then show ?thesis by simp
next
  case False
  have np: "\<not> prefix (flat (Mark m)) (flat (Mark b) @ rest)"
    using prefix_mark [OF assms, of rest] False by blast
  have "str_find (flat (Mark m)) (flat (Mark b) @ rest) =
          (case str_find (flat (Mark m)) (b @ ''}'' @ rest) of None \<Rightarrow> None
           | Some (x, a) \<Rightarrow> Some (CHR ''{'' # x, a))"
    using np by simp
  also have "str_find (flat (Mark m)) (b @ ''}'' @ rest) =
          (case str_find (flat (Mark m)) rest of None \<Rightarrow> None
           | Some (x, a) \<Rightarrow> Some (b @ ''}'' @ x, a))"
    using assms(2) str_find_skip [where s = b and rest = "''}'' @ rest" and x = "m @ ''}''"]
      str_find_skip [where s = "''}''" and rest = rest and x = "m @ ''}''"]
    by (simp add: brace_free_def split: option.splits)
  finally show ?thesis using False by (simp split: option.splits)
qed

lemma str_find_flatten:
  "list_all wf_token ts \<Longrightarrow> brace_free m \<Longrightarrow>
   str_find (flat (Mark m)) (flatten ts) =
     (case split_at (Mark m) ts of None \<Rightarrow> None
      | Some (b, a) \<Rightarrow> Some (flatten b, flatten a))"
proof (induction ts)
  case Nil
  then show ?case by simp
next
  case (Cons t ts)
  show ?case
  proof (cases t)
    case (Chr c)
    with Cons show ?thesis by (auto split: option.splits)
  next
    case (Mark b)
    with Cons.prems have bf: "brace_free b" and wf: "list_all wf_token ts" by simp_all
    have "str_find (flat (Mark m)) (flatten (t # ts)) =
            (if b = m then Some ([], flatten ts)
             else (case str_find (flat (Mark m)) (flatten ts) of None \<Rightarrow> None
                   | Some (x, a) \<Rightarrow> Some (flat (Mark b) @ x, a)))"
      unfolding Mark flatten_simps by (rule str_find_mark [OF Cons.prems(2) bf])
    with Cons.IH [OF wf Cons.prems(2)] Mark show ?thesis
      by (simp split: option.splits)
  qed
qed

lemma open_tag_flat: "open_tag k = flat (Mark (k @ ''/''))"
  by (simp add: open_tag_def)

lemma close_tag_flat: "close_tag k = flat (Mark (''/'' @ k))"
  by (simp add: close_tag_def)

lemma var_tag_flat: "var_tag k = flat (Mark k)"
  by (simp add: var_tag_def)

lemma brace_free_tags:
  "brace_free k \<Longrightarrow> brace_free (k @ ''/'')"
  "brace_free k \<Longrightarrow> brace_free (''/'' @ k)"
  by (simp_all add: brace_free_def)

lemma regex_literal_brace_free: "regex_literal k \<Longrightarrow> brace_free k"
  by (auto simp: regex_literal_def regex_operators_def brace_free_def list_all_iff)

lemma drop_blocks_split:
  "drop_blocks k ts =
     (case split_at (Mark (k @ ''/'')) ts of
        None \<Rightarrow> ts
      | Some (before, rest) \<Rightarrow>
          (case split_at (Mark (''/'' @ k)) rest of
             None \<Rightarrow> ts
           | Some (inner, after) \<Rightarrow> before @ drop_blocks k after))"
proof (induction ts)
  case Nil
  show ?case by simp
next
  case (Cons t ts)
  show ?case
  proof (cases "t = Mark (k @ ''/'')")
    case True
    then show ?thesis by (simp add: drop_blocks.simps(2) split: option.splits)
  next
    case False
    then have "drop_blocks k (t # ts) = t # drop_blocks k ts"
      by (simp add: drop_blocks.simps(2))
    with False Cons.IH show ?thesis
      by (simp split: option.splits)
  qed
qed

lemma delete_blocks_flatten:
  "list_all wf_token ts \<Longrightarrow> brace_free k \<Longrightarrow>
   delete_blocks k (flatten ts) = flatten (drop_blocks k ts)"
proof (induction "length ts" arbitrary: ts rule: less_induct)
  case less
  note bo = brace_free_tags(1) [OF less.prems(2)]
  note bc = brace_free_tags(2) [OF less.prems(2)]
  show ?case
  proof (cases "split_at (Mark (k @ ''/'')) ts")
    case None
    then show ?thesis
      using str_find_flatten [OF less.prems(1) bo]
      by (subst delete_blocks.simps, subst drop_blocks_split) (simp add: open_tag_flat)
  next
    case (Some br)
    obtain before rest where br: "br = (before, rest)" by (cases br)
    from Some br have ts: "ts = before @ Mark (k @ ''/'') # rest"
      by (simp add: split_at_Some)
    with less.prems(1) have wf_rest: "list_all wf_token rest" by simp
    show ?thesis
    proof (cases "split_at (Mark (''/'' @ k)) rest")
      case None
      with Some br show ?thesis
        using str_find_flatten [OF less.prems(1) bo] str_find_flatten [OF wf_rest bc]
        by (subst delete_blocks.simps, subst drop_blocks_split)
           (simp add: open_tag_flat close_tag_flat)
    next
      case (Some ia)
      obtain inner after where ia: "ia = (inner, after)" by (cases ia)
      from Some ia have rest: "rest = inner @ Mark (''/'' @ k) # after"
        by (simp add: split_at_Some)
      with wf_rest have wf_after: "list_all wf_token after" by simp
      from ts rest have "length after < length ts" by simp
      from less.hyps [OF this wf_after less.prems(2)]
      have IH: "delete_blocks k (flatten after) = flatten (drop_blocks k after)" .
      from \<open>split_at (Mark (k @ ''/'')) ts = Some br\<close> br Some ia IH show ?thesis
        using str_find_flatten [OF less.prems(1) bo] str_find_flatten [OF wf_rest bc]
        by (subst delete_blocks.simps, subst drop_blocks_split)
           (simp add: open_tag_flat close_tag_flat)
    qed
  qed
qed

lemma concat_map_filter_mark:
  "concat (map (\<lambda>t. if t = m then [] else flat t) ts) = flatten (filter (\<lambda>t. t \<noteq> m) ts)"
  by (induction ts) simp_all

lemma wf_filter: "list_all wf_token ts \<Longrightarrow> list_all wf_token (filter P ts)"
  by (induction ts) simp_all

lemma remove_tags_flatten:
  assumes "list_all wf_token ts" "brace_free k"
  shows "remove_tags (flatten ts) k =
           flatten (filter (\<lambda>t. t \<noteq> Mark (k @ ''/'') \<and> t \<noteq> Mark (''/'' @ k)) ts)"
proof -
  have 1: "str_replace (flatten ts) (open_tag k) [] =
             flatten (filter (\<lambda>t. t \<noteq> Mark (k @ ''/'')) ts)"
    unfolding open_tag_flat
    using str_replace_flatten [OF assms(1) brace_free_tags(1) [OF assms(2)], of "[]"]
    by (simp only: concat_map_filter_mark)
  have 2: "str_replace (flatten (filter (\<lambda>t. t \<noteq> Mark (k @ ''/'')) ts)) (close_tag k) [] =
             flatten (filter (\<lambda>t. t \<noteq> Mark (''/'' @ k)) (filter (\<lambda>t. t \<noteq> Mark (k @ ''/'')) ts))"
    unfolding close_tag_flat
    using str_replace_flatten [OF wf_filter [OF assms(1)] brace_free_tags(2) [OF assms(2)], of _ "[]"]
    by (simp only: concat_map_filter_mark)
  show ?thesis
    unfolding remove_tags_def 1 2 by (simp add: conj_commute)
qed



lemma delete_blocks_no_close:
  assumes "\<not> sublist (close_tag k) text"
  shows "delete_blocks k text = text"
proof (cases "str_find (open_tag k) text")
  case None
  then show ?thesis by (subst delete_blocks.simps) simp
next
  case (Some br)
  obtain before rest where br: "br = (before, rest)" by (cases br)
  with Some have tx: "text = before @ open_tag k @ rest" by (simp add: str_find_Some)
  have "str_find (close_tag k) rest = None"
  proof (rule ccontr)
    assume "str_find (close_tag k) rest \<noteq> None"
    then obtain i a where "str_find (close_tag k) rest = Some (i, a)" by auto
    then have "rest = i @ close_tag k @ a" by (rule str_find_Some)
    with tx have "text = (before @ open_tag k @ i) @ close_tag k @ a" by simp
    then have "sublist (close_tag k) text" unfolding sublist_def by blast
    with assms show False by contradiction
  qed
  with Some br show ?thesis by (subst delete_blocks.simps) simp
qed

lemma apply_replacements_returns:
  "list_all (\<lambda>(k, operator). regex_literal k) rs \<Longrightarrow> \<exists>s. apply_replacements rs t p = Inr s"
proof (induction rs arbitrary: t)
  case Nil
  show ?case by simp
next
  case (Cons r rs)
  obtain k operator where r: "r = (k, operator)" by (cases r)
  with Cons.prems have "regex_literal k" by simp
  then obtain t' where "replace_template_variable t k operator p = Inr t'"
    using replace_template_variable_returns by blast
  with Cons r show ?case by simp
qed

lemma build_signature_returns: "\<exists>s. build_signature t p = Inr s"
proof -
  have "list_all (\<lambda>(k, operator). regex_literal k) (replacements_for p)"
    by (simp add: replacements_for_def common_replacements_def additional_replacements_def
        field_keywords_literal)
  then obtain s where "apply_replacements (replacements_for p) t p = Inr s"
    using apply_replacements_returns by blast
  then show ?thesis by (simp add: build_signature_def)
qed

lemma split_at_first: "m \<notin> set inner \<Longrightarrow> split_at m (inner @ m # post) = Some (inner, post)"
  by (induction inner) auto




subsection \<open>Trees and their tokens\<close>

lemma toks_append [simp]: "toks (xs @ ys) = toks xs @ toks ys"
  by (induction xs rule: toks.induct) simp_all

lemma toks_map_Lit [simp]: "toks (map Lit v) = map Chr v"
  by (induction v) simp_all

lemma flatten_map_Chr [simp]: "flatten (map Chr v) = v"
  by (induction v) simp_all

lemma plain_brace_free: "plain k \<Longrightarrow> brace_free k"
  by (simp add: plain_def regex_literal_brace_free)

lemma wf_toks: "names_ok items \<Longrightarrow> list_all wf_token (toks items)"
  by (induction items rule: toks.induct)
     (auto dest: plain_brace_free simp: brace_free_def)

lemma slash_free_neq:
  "CHR ''/'' \<notin> set k \<Longrightarrow> k \<noteq> b @ ''/''"
  "CHR ''/'' \<notin> set k \<Longrightarrow> k \<noteq> ''/'' @ b"
  "CHR ''/'' \<notin> set k \<Longrightarrow> CHR ''/'' \<notin> set b \<Longrightarrow> b \<noteq> k \<Longrightarrow> b @ ''/'' \<noteq> ''/'' @ k"
    by (auto simp: append_eq_Cons_conv)

lemma fill_toks:
  "CHR ''/'' \<notin> set k \<Longrightarrow>
   concat (map (\<lambda>t. if t = Mark k then v else flat t) (toks items)) =
     flatten (toks (fill k v items))"
  using slash_free_neq(1,2) [of k]
  by (induction items rule: toks.induct) auto

lemma unwrap_toks:
  "names_ok items \<Longrightarrow> plain k \<Longrightarrow>
   filter (\<lambda>t. t \<noteq> Mark (k @ ''/'') \<and> t \<noteq> Mark (''/'' @ k)) (toks items) = toks (unwrap k items)"
proof (induction items rule: toks.induct)
  case 1
  show ?case by simp
next
  case (2 c rest)
  then show ?case by simp
next
  case (3 x rest)
  then show ?case
    using slash_free_neq(1,2) [of x k] by (auto simp: plain_def)
next
  case (4 b body rest)
  then show ?case
    using slash_free_neq(3) [of k b] slash_free_neq(3) [of b k]
    by (auto simp: plain_def)
qed

lemma close_in_toks:
  "names_ok items \<Longrightarrow> CHR ''/'' \<notin> set k \<Longrightarrow> Mark (''/'' @ k) \<in> set (toks items) \<Longrightarrow> k \<in> blocks items"
proof (induction items rule: toks.induct)
  case 1
  then show ?case by simp
next
  case (2 c rest)
  then show ?case by simp
next
  case (3 x rest)
  then show ?case using slash_free_neq(2) [of x k] by (auto simp: plain_def)
next
  case (4 b body rest)
  then show ?case
    using slash_free_neq(3) [of k b] by (auto simp: plain_def)
qed

lemma prune_toks:
  "names_ok items \<Longrightarrow> plain k \<Longrightarrow> nest_free k items \<Longrightarrow>
   drop_blocks k (toks items @ rest) = toks (prune k items) @ drop_blocks k rest"
proof (induction items arbitrary: rest rule: toks.induct)
  case 1
  show ?case by simp
next
  case (2 c items)
  then show ?case by (simp add: drop_blocks.simps(2))
next
  case (3 x items)
  then show ?case
    using slash_free_neq(1) [of x k] by (simp add: drop_blocks.simps(2) plain_def)
next
  case (4 b body items)
  from "4.prems" have ok: "names_ok body" "names_ok items" "plain b"
    and nf: "nest_free k body" "nest_free k items" by simp_all
  from "4.prems"(2) ok(3) have sl: "CHR ''/'' \<notin> set k" "CHR ''/'' \<notin> set b"
    by (simp_all add: plain_def)
  show ?case
  proof (cases "b = k")
    case True
    with "4.prems"(3) have "k \<notin> blocks body" by simp
    with close_in_toks [OF ok(1) sl(1)] have "Mark (''/'' @ k) \<notin> set (toks body)" by blast
    then have "split_at (Mark (''/'' @ k)) (toks body @ Mark (''/'' @ k) # (toks items @ rest)) =
                 Some (toks body, toks items @ rest)"
      by (rule split_at_first)
    then have "drop_blocks k (toks (Block b body # items) @ rest) = drop_blocks k (toks items @ rest)"
      using True by (simp add: drop_blocks.simps(2))
    with True "4.IH"(2) [OF ok(2) "4.prems"(2) nf(2)] show ?thesis by simp
  next
    case False
    have 1: "drop_blocks k (toks (Block b body # items) @ rest) =
               Mark (b @ ''/'') # drop_blocks k (toks body @ (Mark (''/'' @ b) # toks items @ rest))"
      using False by (simp add: drop_blocks.simps(2))
    have 2: "drop_blocks k (Mark (''/'' @ b) # toks items @ rest) =
               Mark (''/'' @ b) # drop_blocks k (toks items @ rest)"
      using slash_free_neq(3) [OF sl(2) sl(1)] False
      by (simp add: drop_blocks.simps(2))
    show ?thesis
      unfolding 1 "4.IH"(1) [OF ok(1) "4.prems"(2) nf(1)] 2
        "4.IH"(2) [OF ok(2) "4.prems"(2) nf(2)]
      using False by simp
  qed
qed

lemma operators_distinct [simp]:
  "NORMAL_REPLACEMENT \<noteq> CUSTOM_PARAGRAPH_WITH_VARIABLE"
  "NORMAL_REPLACEMENT \<noteq> CUSTOM_PARAGRAPH_WITHOUT_VARIABLE"
  "CUSTOM_PARAGRAPH_WITH_VARIABLE \<noteq> CUSTOM_PARAGRAPH_WITHOUT_VARIABLE"
  "CUSTOM_PARAGRAPH_WITH_VARIABLE \<noteq> NORMAL_REPLACEMENT"
  "CUSTOM_PARAGRAPH_WITHOUT_VARIABLE \<noteq> NORMAL_REPLACEMENT"
  "CUSTOM_PARAGRAPH_WITHOUT_VARIABLE \<noteq> CUSTOM_PARAGRAPH_WITH_VARIABLE"
  by (simp_all add: NORMAL_REPLACEMENT_def CUSTOM_PARAGRAPH_WITH_VARIABLE_def
      CUSTOM_PARAGRAPH_WITHOUT_VARIABLE_def)

lemma vars_append [simp]: "vars (xs @ ys) = vars xs \<union> vars ys"
  by (induction xs rule: toks.induct) auto

lemma blocks_append [simp]: "blocks (xs @ ys) = blocks xs \<union> blocks ys"
  by (induction xs rule: toks.induct) auto

lemma unguarded_append [simp]: "unguarded (xs @ ys) = unguarded xs \<union> unguarded ys"
  by (induction xs rule: toks.induct) auto

lemma names_ok_append [simp]: "names_ok (xs @ ys) \<longleftrightarrow> names_ok xs \<and> names_ok ys"
  by (induction xs rule: toks.induct) auto

lemma nest_free_append [simp]: "nest_free q (xs @ ys) \<longleftrightarrow> nest_free q xs \<and> nest_free q ys"
  by (induction xs rule: toks.induct) auto

lemma Lit_items [simp]:
  "vars (map Lit v) = {}" "blocks (map Lit v) = {}" "unguarded (map Lit v) = {}"
  "nest_free q (map Lit v)" "names_ok (map Lit v) \<longleftrightarrow> brace_free v"
  by (induction v) (auto simp: brace_free_def)

lemma unguarded_vars: "unguarded items \<subseteq> vars items"
  by (induction items rule: toks.induct) auto

subsection \<open>Effect of substitution on a tree\<close>

lemma vars_fill [simp]: "vars (fill k v items) = vars items - {k}"
  by (induction items rule: toks.induct) auto

lemma blocks_fill [simp]: "blocks (fill k v items) = blocks items"
  by (induction items rule: toks.induct) auto

lemma unguarded_fill [simp]: "unguarded (fill k v items) = unguarded items - {k}"
  by (induction items rule: toks.induct) auto

lemma names_ok_fill: "names_ok items \<Longrightarrow> brace_free v \<Longrightarrow> names_ok (fill k v items)"
  by (induction items rule: toks.induct) auto

lemma nest_free_fill [simp]: "nest_free q (fill k v items) = nest_free q items"
  by (induction items rule: toks.induct) auto

subsection \<open>Effect of removing the markers of a block\<close>

lemma vars_unwrap [simp]: "vars (unwrap k items) = vars items"
  by (induction items rule: toks.induct) auto

lemma blocks_unwrap [simp]: "blocks (unwrap k items) = blocks items - {k}"
  by (induction items rule: toks.induct) auto

lemma unguarded_unwrap: "unguarded (unwrap k items) \<subseteq> unguarded items \<union> {k}"
  by (induction items rule: toks.induct) auto

lemma names_ok_unwrap: "names_ok items \<Longrightarrow> names_ok (unwrap k items)"
  by (induction items rule: toks.induct) auto

lemma nest_free_unwrap: "nest_free q items \<Longrightarrow> nest_free q (unwrap k items)"
  by (induction items rule: toks.induct) auto

subsection \<open>Effect of deleting blocks\<close>

lemma vars_prune: "vars (prune k items) \<subseteq> vars items"
  by (induction items rule: toks.induct) auto

lemma blocks_prune: "blocks (prune k items) \<subseteq> blocks items - {k}"
  by (induction items rule: toks.induct) auto

lemma unguarded_prune: "unguarded (prune k items) \<subseteq> unguarded items"
  by (induction items rule: toks.induct) auto

lemma guarded_prune: "k \<notin> unguarded items \<Longrightarrow> k \<notin> vars (prune k items)"
  by (induction items rule: toks.induct) auto

lemma names_ok_prune: "names_ok items \<Longrightarrow> names_ok (prune k items)"
  by (induction items rule: toks.induct) auto

lemma nest_free_prune: "nest_free q items \<Longrightarrow> nest_free q (prune k items)"
  using blocks_prune by (induction items rule: toks.induct) auto

subsection \<open>A pass of the engine on a rendered tree\<close>

lemma plain_slash: "plain k \<Longrightarrow> CHR ''/'' \<notin> set k"
  by (simp add: plain_def)

lemma fill_render:
  assumes "names_ok items" "plain k"
  shows "str_replace (render items) (var_tag k) v = render (fill k v items)"
  unfolding render_def var_tag_flat
  using str_replace_flatten [OF wf_toks [OF assms(1)] plain_brace_free [OF assms(2)], of v]
    fill_toks [OF plain_slash [OF assms(2)], of v items]
  by simp

lemma unwrap_render:
  assumes "names_ok items" "plain k"
  shows "remove_tags (render items) k = render (unwrap k items)"
  unfolding render_def
  using remove_tags_flatten [OF wf_toks [OF assms(1)] plain_brace_free [OF assms(2)]]
    unwrap_toks [OF assms]
  by simp

lemma prune_render:
  assumes "names_ok items" "plain k" "nest_free k items"
  shows "delete_blocks k (render items) = render (prune k items)"
  unfolding render_def
  using delete_blocks_flatten [OF wf_toks [OF assms(1)] plain_brace_free [OF assms(2)]]
    prune_toks [OF assms, of "[]"]
  by simp

lemma pass_render:
  assumes "names_ok items" "plain k"
    and "operator = CUSTOM_PARAGRAPH_WITH_VARIABLE \<or> operator = CUSTOM_PARAGRAPH_WITHOUT_VARIABLE
         \<Longrightarrow> nest_free k items"
  shows "replace_template_variable (render items) k operator p =
           Inr (render (pass p (k, operator) items))"
proof -
  have lit: "regex_literal k" using assms(2) by (simp add: plain_def)
  consider (n) "operator = NORMAL_REPLACEMENT"
    | (w) "operator = CUSTOM_PARAGRAPH_WITH_VARIABLE"
    | (o) "operator = CUSTOM_PARAGRAPH_WITHOUT_VARIABLE"
    | (x) "operator \<noteq> NORMAL_REPLACEMENT" "operator \<noteq> CUSTOM_PARAGRAPH_WITH_VARIABLE"
          "operator \<noteq> CUSTOM_PARAGRAPH_WITHOUT_VARIABLE"
    by blast
  then show ?thesis
  proof cases
    case n
    then show ?thesis
      by (simp add: replace_template_variable_def pass_def fill_render [OF assms(1,2)])
  next
    case w
    with assms(3) have nf: "nest_free k items" by simp
    show ?thesis
      using w lit
      by (simp add: replace_template_variable_def pass_def remove_everything_between_tags_def
          unwrap_render [OF assms(1,2)] fill_render [OF names_ok_unwrap [OF assms(1)] assms(2)]
          prune_render [OF assms(1,2) nf])
  next
    case o
    with assms(3) have nf: "nest_free k items" by simp
    show ?thesis
      using o lit
      by (simp add: replace_template_variable_def pass_def remove_everything_between_tags_def
          unwrap_render [OF assms(1,2)] prune_render [OF assms(1,2) nf])
  next
    case x
    then show ?thesis
      by (simp add: replace_template_variable_def pass_def)
  qed
qed

lemma default_value_brace_free:
  "brace_free (py_str (dict_get p k)) \<Longrightarrow> brace_free (py_str (dict_get_default p k (PStr [])))"
  by (simp add: dict_get_def dict_get_default_def brace_free_def split: option.splits)

lemma pass_props:
  assumes ok: "names_ok items"
    and val: "brace_free (py_str (dict_get p k))"
    and w: "operator = CUSTOM_PARAGRAPH_WITH_VARIABLE \<longrightarrow> k \<notin> unguarded items"
    and o: "operator = CUSTOM_PARAGRAPH_WITHOUT_VARIABLE \<longrightarrow> k \<notin> vars items"
  shows "names_ok (pass p (k, operator) items)"
    and "vars (pass p (k, operator) items) \<subseteq> vars items"
    and "operator = NORMAL_REPLACEMENT \<or> operator = CUSTOM_PARAGRAPH_WITH_VARIABLE
         \<Longrightarrow> k \<notin> vars (pass p (k, operator) items)"
    and "blocks (pass p (k, operator) items) \<subseteq> blocks items"
    and "operator = CUSTOM_PARAGRAPH_WITH_VARIABLE \<or> operator = CUSTOM_PARAGRAPH_WITHOUT_VARIABLE
         \<Longrightarrow> k \<notin> blocks (pass p (k, operator) items)"
    and "unguarded (pass p (k, operator) items) \<subseteq> unguarded items"
    and "nest_free q items \<Longrightarrow> nest_free q (pass p (k, operator) items)"
proof -
  note dv = default_value_brace_free [OF val]
  show "names_ok (pass p (k, operator) items)"
    using ok val dv
    by (simp add: pass_def names_ok_fill names_ok_unwrap names_ok_prune)
  show "vars (pass p (k, operator) items) \<subseteq> vars items"
    using vars_prune [of k items] by (auto simp: pass_def)
  show "k \<notin> vars (pass p (k, operator) items)"
    if "operator = NORMAL_REPLACEMENT \<or> operator = CUSTOM_PARAGRAPH_WITH_VARIABLE"
    using that w guarded_prune [of k items] by (auto simp: pass_def)
  show "blocks (pass p (k, operator) items) \<subseteq> blocks items"
    using blocks_prune [of k items] by (auto simp: pass_def)
  show "k \<notin> blocks (pass p (k, operator) items)"
    if "operator = CUSTOM_PARAGRAPH_WITH_VARIABLE \<or> operator = CUSTOM_PARAGRAPH_WITHOUT_VARIABLE"
    using that blocks_prune [of k items] by (auto simp: pass_def)
  show "unguarded (pass p (k, operator) items) \<subseteq> unguarded items"
    using unguarded_prune [of k items] unguarded_unwrap [of k items]
      unguarded_vars [of "unwrap k items"] o
    by (auto simp: pass_def)
  show "nest_free q (pass p (k, operator) items)" if "nest_free q items"
    using that by (simp add: pass_def nest_free_unwrap nest_free_prune)
qed

lemma ready_Cons:
  "ready ((k, operator) # rs) items \<longleftrightarrow>
     plain k \<and>
     (operator = CUSTOM_PARAGRAPH_WITH_VARIABLE \<longrightarrow> k \<notin> unguarded items \<and> nest_free k items) \<and>
     (operator = CUSTOM_PARAGRAPH_WITHOUT_VARIABLE \<longrightarrow> k \<notin> vars items \<and> nest_free k items) \<and>
     ready rs items"
  by (auto simp: ready_def)

lemma ready_pass:
  assumes "ready ((k, operator) # rs) items" "brace_free (py_str (dict_get p k))"
  shows "ready rs (pass p (k, operator) items)"
proof -
  from assms(1) have w: "operator = CUSTOM_PARAGRAPH_WITH_VARIABLE \<longrightarrow> k \<notin> unguarded items"
    and o: "operator = CUSTOM_PARAGRAPH_WITHOUT_VARIABLE \<longrightarrow> k \<notin> vars items"
    and rs: "ready rs items"
    by (simp_all add: ready_Cons)
  from rs have ok: "names_ok items" by (simp add: ready_def)
  note pp = pass_props [OF ok assms(2) w o]
  show ?thesis
    unfolding ready_def list_all_iff
  proof (intro conjI ballI)
    show "names_ok (pass p (k, operator) items)" by (rule pp(1))
    fix r assume r: "r \<in> set rs"
    obtain k' op' where r': "r = (k', op')" by (cases r)
    from rs r r' have pl: "plain k'"
      and w': "op' = CUSTOM_PARAGRAPH_WITH_VARIABLE \<Longrightarrow> k' \<notin> unguarded items \<and> nest_free k' items"
      and o': "op' = CUSTOM_PARAGRAPH_WITHOUT_VARIABLE \<Longrightarrow> k' \<notin> vars items \<and> nest_free k' items"
      by (auto simp: ready_def list_all_iff)
    show "case r of (k', op') \<Rightarrow>
            plain k' \<and>
            (op' = CUSTOM_PARAGRAPH_WITH_VARIABLE \<longrightarrow>
               k' \<notin> unguarded (pass p (k, operator) items) \<and>
               nest_free k' (pass p (k, operator) items)) \<and>
            (op' = CUSTOM_PARAGRAPH_WITHOUT_VARIABLE \<longrightarrow>
               k' \<notin> vars (pass p (k, operator) items) \<and>
               nest_free k' (pass p (k, operator) items))"
      unfolding r' using pl w' o' pp(2) pp(6) pp(7) [of k'] by auto
  qed
qed

lemma apply_replacements_render:
  "ready rs items \<Longrightarrow> values_ok p rs \<Longrightarrow>
   apply_replacements rs (render items) p = Inr (render (fold (pass p) rs items))"
proof (induction rs arbitrary: items)
  case Nil
  show ?case by simp
next
  case (Cons r rs)
  obtain k operator where r: "r = (k, operator)" by (cases r)
  from Cons.prems(2) r have val: "brace_free (py_str (dict_get p k))" and vals: "values_ok p rs"
    by (simp_all add: values_ok_def)
  from Cons.prems(1) r have rd: "ready ((k, operator) # rs) items" by simp
  then have pl: "plain k"
    and nf: "operator = CUSTOM_PARAGRAPH_WITH_VARIABLE \<or> operator = CUSTOM_PARAGRAPH_WITHOUT_VARIABLE
             \<Longrightarrow> nest_free k items"
    by (auto simp: ready_Cons)
  from rd have ok: "names_ok items" by (simp add: ready_def)
  have "replace_template_variable (render items) k operator p =
          Inr (render (pass p (k, operator) items))"
    by (rule pass_render [OF ok pl nf])
  moreover have "apply_replacements rs (render (pass p (k, operator) items)) p =
          Inr (render (fold (pass p) rs (pass p (k, operator) items)))"
    by (rule Cons.IH [OF ready_pass [OF rd val] vals])
  ultimately show ?case by (simp add: r)
qed

lemma fold_pass_sets:
  "ready rs items \<Longrightarrow> values_ok p rs \<Longrightarrow>
   names_ok (fold (pass p) rs items) \<and>
   vars (fold (pass p) rs items) \<subseteq> vars items - substituted rs \<and>
   blocks (fold (pass p) rs items) \<subseteq> blocks items - conditional rs"
proof (induction rs arbitrary: items)
  case Nil
  then show ?case by (simp add: ready_def substituted_def conditional_def)
next
  case (Cons r rs)
  obtain k operator where r: "r = (k, operator)" by (cases r)
  from Cons.prems(2) r have val: "brace_free (py_str (dict_get p k))" and vals: "values_ok p rs"
    by (simp_all add: values_ok_def)
  from Cons.prems(1) r have rd: "ready ((k, operator) # rs) items" by simp
  then have w: "operator = CUSTOM_PARAGRAPH_WITH_VARIABLE \<longrightarrow> k \<notin> unguarded items"
    and o: "operator = CUSTOM_PARAGRAPH_WITHOUT_VARIABLE \<longrightarrow> k \<notin> vars items"
    by (simp_all add: ready_Cons)
  from rd have ok: "names_ok items" by (simp add: ready_def)
  note pp = pass_props [OF ok val w o]
  let ?items = "pass p (k, operator) items"
  from Cons.IH [OF ready_pass [OF rd val] vals]
  have IH: "names_ok (fold (pass p) rs ?items)"
    "vars (fold (pass p) rs ?items) \<subseteq> vars ?items - substituted rs"
    "blocks (fold (pass p) rs ?items) \<subseteq> blocks ?items - conditional rs"
    by simp_all
  have "vars ?items - substituted rs \<subseteq> vars items - substituted ((k, operator) # rs)"
    using pp(2) pp(3) by (auto simp: substituted_def)
  moreover have "blocks ?items - conditional rs \<subseteq> blocks items - conditional ((k, operator) # rs)"
    using pp(4) pp(5) by (auto simp: conditional_def)
  ultimately show ?case using IH by (simp add: r) blast
qed

lemma only_literals:
  "names_ok items \<Longrightarrow> vars items = {} \<Longrightarrow> blocks items = {} \<Longrightarrow> brace_free (render items)"
  by (induction items rule: toks.induct) (auto simp: render_def brace_free_def)

lemma brace_free_no_marker:
  assumes "brace_free s"
  shows "\<not> sublist (var_tag k) s" "\<not> sublist (open_tag k) s" "\<not> sublist (close_tag k) s"
  using assms by (auto simp: sublist_def brace_free_def var_tag_def open_tag_def close_tag_def)

lemma constants_plain: "plain ''company''" "plain ''web''"
  "brace_free COMPANY_NAME" "brace_free COMPANY_WEBSITE"
  by (simp_all add: plain_def regex_literal_def regex_operators_def brace_free_def
      COMPANY_NAME_def COMPANY_WEBSITE_def)

section \<open>The relevance filter\<close>


section \<open>Concrete scenarios of the engine\<close>

text \<open>
  C8. On the template \<^verbatim>\<open>Hi {firstName}, {phone/}Call me: {phone}{/phone}\<close> and a profile
  with first name \<^verbatim>\<open>Ana\<close>, the pass for \<^verbatim>\<open>phone\<close> in the mode with a variable followed by
  the pass for \<^verbatim>\<open>firstName\<close> in the normal mode gives \<^verbatim>\<open>Hi Ana, \<close> when the phone is the
  empty string, and \<^verbatim>\<open>Hi Ana, Call me: 123\<close> when the phone is \<^verbatim>\<open>123\<close>.
\<close>

theorem scenario_phone_block:
  "apply_replacements
     [(''phone'', CUSTOM_PARAGRAPH_WITH_VARIABLE), (''firstName'', NORMAL_REPLACEMENT)]
     ''Hi {firstName}, {phone/}Call me: {phone}{/phone}''
     [''firstName'' \<mapsto> PStr ''Ana'', ''phone'' \<mapsto> PStr '''']
   = Inr ''Hi Ana, ''
   \<and>
   apply_replacements
     [(''phone'', CUSTOM_PARAGRAPH_WITH_VARIABLE), (''firstName'', NORMAL_REPLACEMENT)]
     ''Hi {firstName}, {phone/}Call me: {phone}{/phone}''
     [''firstName'' \<mapsto> PStr ''Ana'', ''phone'' \<mapsto> PStr ''123'']
   = Inr ''Hi Ana, Call me: 123''"
  by (simp add: engine_defs)

section \<open>The profile normalizer\<close>

lemma get_nested_personal:
  "get_nested (case customSchemas r of None \<Rightarrow> None | Some cs \<Rightarrow> Personal_Information cs) field
   = get_str (personal_attribute r field)"
  by (simp add: get_nested_def personal_attribute_def get_str_def split: option.splits)

lemma address_loop_last:
  "address_loop es a =
     (case filter (\<lambda>e. address_type e = Some ''work'') es of
        [] \<Rightarrow> a
      | w # ws \<Rightarrow> get_str (address_formatted (last (w # ws))))"
  by (induction es arbitrary: a) (auto split: list.splits)

lemma phone_loop_last:
  "phone_loop es (p, m) =
     ((case filter (\<lambda>e. phone_type e = Some ''work'') es of
         [] \<Rightarrow> p
       | w # ws \<Rightarrow> get_str (phone_value (last (w # ws)))),
      (case filter (\<lambda>e. phone_type e = Some ''mobile'') es of
         [] \<Rightarrow> m
       | w # ws \<Rightarrow> get_str (phone_value (last (w # ws)))))"
  by (induction es arbitrary: p m) (auto split: list.splits)

text \<open>
  C3. The profile of every record has \<open>technicalUser\<close> true exactly when the record's
  organizational-unit path equals \<^verbatim>\<open>/Orga Accounts\<close>. A technical profile holds exactly
  the keys technicalUser, email, lastName, address and phone, so firstName, jobtitle,
  department, mobile, pronouns, gernePerDu, conditionalLineBreak and managementRole are
  absent from it; any other profile holds all thirteen keys. The flag alone decides the
  shape.
\<close>

theorem process_user_data_shape:
  "process_user_data r ''technicalUser'' = Some (PBool (orgUnitPath r = Some ''/Orga Accounts''))
   \<and> (orgUnitPath r = Some ''/Orga Accounts'' \<longrightarrow>
        dom (process_user_data r) = {''technicalUser'', ''email'', ''lastName'', ''address'', ''phone''}
        \<and> (\<forall>k \<in> {''firstName'', ''jobtitle'', ''department'', ''mobile'', ''pronouns'',
                   ''gernePerDu'', ''conditionalLineBreak'', ''managementRole''}.
              process_user_data r k = None))
   \<and> (orgUnitPath r \<noteq> Some ''/Orga Accounts'' \<longrightarrow>
        dom (process_user_data r) =
          {''technicalUser'', ''email'', ''firstName'', ''lastName'', ''jobtitle'', ''address'',
           ''department'', ''phone'', ''mobile'', ''pronouns'', ''gernePerDu'',
           ''conditionalLineBreak'', ''managementRole''})"
  by (simp add: process_user_data_def Let_def dom_map_of_conv_image_fst split: prod.splits list.splits)

theorem process_user_data_shape_witness:
  "dom (process_user_data technical_example) =
     {''technicalUser'', ''email'', ''lastName'', ''address'', ''phone''}
   \<and> process_user_data technical_example ''mobile'' = None
   \<and> process_user_data staff_example ''technicalUser'' = Some (PBool False)
   \<and> dom (process_user_data staff_example) =
          {''technicalUser'', ''email'', ''firstName'', ''lastName'', ''jobtitle'', ''address'',
           ''department'', ''phone'', ''mobile'', ''pronouns'', ''gernePerDu'',
           ''conditionalLineBreak'', ''managementRole''}"
  using process_user_data_shape [of technical_example] process_user_data_shape [of staff_example]
  by (simp add: technical_example_def staff_example_def)

text \<open>
  C4. For every record that is not a technical account, \<open>gernePerDu\<close> is true exactly
  when the custom attribute \<^verbatim>\<open>GernePerDu\<close> is the string \<^verbatim>\<open>yes\<close>, \<open>pronouns\<close> is the
  custom attribute \<^verbatim>\<open>Pronouns\<close> or the empty string, and \<open>conditionalLineBreak\<close> is the
  negation of "pronouns is empty and gernePerDu is false".
\<close>

theorem process_user_data_flags:
  "orgUnitPath r \<noteq> Some ''/Orga Accounts'' \<Longrightarrow>
   process_user_data r ''gernePerDu'' = Some (PBool (personal_attribute r GernePerDu = Some ''yes''))
   \<and> process_user_data r ''pronouns'' = Some (PStr (get_str (personal_attribute r Pronouns)))
   \<and> process_user_data r ''conditionalLineBreak'' =
       Some (PBool (\<not> (get_str (personal_attribute r Pronouns) = []
                         \<and> personal_attribute r GernePerDu \<noteq> Some ''yes'')))"
  by (auto simp: process_user_data_def Let_def get_nested_personal get_str_def
      split: prod.splits list.splits option.splits)

theorem process_user_data_flags_witness:
  "process_user_data staff_example ''gernePerDu'' = Some (PBool True)
   \<and> process_user_data staff_example ''pronouns'' = Some (PStr [])
   \<and> process_user_data staff_example ''conditionalLineBreak'' = Some (PBool True)"
  using process_user_data_flags [of staff_example]
  by (simp add: staff_example_def personal_attribute_def get_str_def)

text \<open>
  C2, as stated: with several work-tagged entries the first one is selected. The record
  \<open>staff_example\<close> has the work addresses \<^verbatim>\<open>Kaiserstr. 1\<close> and \<^verbatim>\<open>Hauptstr. 2\<close> in this
  order, the work phones \<^verbatim>\<open>089 1\<close> and \<^verbatim>\<open>089 2\<close> and the mobile phones \<^verbatim>\<open>0170 1\<close>
  and \<^verbatim>\<open>0170 2\<close>; its profile holds the second of each.
\<close>

theorem first_match_counterexample:
  "process_user_data staff_example ''address'' \<noteq> Some (PStr ''Kaiserstr. 1'')
   \<and> process_user_data staff_example ''address'' = Some (PStr ''Hauptstr. 2'')
   \<and> process_user_data staff_example ''phone'' = Some (PStr ''089 2'')
   \<and> process_user_data staff_example ''mobile'' = Some (PStr ''0170 2'')"
  by (simp add: process_user_data_def staff_example_def get_list_def get_str_def get_nested_def)

text \<open>
  C2, amended: the loops of the normalizer assign at every entry that carries the tag, so
  the last match wins. For every record, \<open>address\<close> is the formatted text of the last
  work-tagged address entry and \<open>phone\<close> the value of the last work-tagged phone entry;
  for every record that is not a technical account, \<open>mobile\<close> is the value of the last
  mobile-tagged phone entry. Each is the empty string when no entry carries the tag.
\<close>

theorem process_user_data_last_match:
  "process_user_data r ''address'' =
     Some (PStr (last_tagged address_type address_formatted ''work'' (get_list (addresses r))))
   \<and> process_user_data r ''phone'' =
     Some (PStr (last_tagged phone_type phone_value ''work'' (get_list (phones r))))
   \<and> (orgUnitPath r \<noteq> Some ''/Orga Accounts'' \<longrightarrow>
        process_user_data r ''mobile'' =
          Some (PStr (last_tagged phone_type phone_value ''mobile'' (get_list (phones r)))))"
  by (simp add: process_user_data_def Let_def phone_loop_last address_loop_last last_tagged_def
      split: prod.splits list.splits)

theorem process_user_data_last_match_witness:
  "process_user_data staff_example ''mobile'' = Some (PStr ''0170 2'')
   \<and> process_user_data technical_example ''phone'' = Some (PStr ''089 1'')"
  using process_user_data_last_match [of staff_example]
    process_user_data_last_match [of technical_example]
  by (simp add: staff_example_def technical_example_def last_tagged_def get_list_def get_str_def)

section \<open>The assembler\<close>

text \<open>
  C7. \<open>build_signature\<close> runs the engine once for each entry of a fixed ordered list.
  For every profile the first four passes are lastName (normal), address (normal), phone
  (paragraph with variable) and email (normal). For a profile whose \<open>technicalUser\<close> is
  truthy nothing else is run; for any other profile the passes firstName (normal),
  jobtitle (normal), managementRole (with variable), pronouns (with variable), gernePerDu
  (without variable), conditionalLineBreak (without variable) and mobile (with variable)
  follow in this order. In both cases \<^verbatim>\<open>{company}\<close> and then \<^verbatim>\<open>{web}\<close> are replaced
  last by the two constants, and the result is returned.
\<close>

theorem build_signature_passes:
  "\<exists>t1 t2 t3 t4.
     replace_template_variable t ''lastName'' NORMAL_REPLACEMENT p = Inr t1 \<and>
     replace_template_variable t1 ''address'' NORMAL_REPLACEMENT p = Inr t2 \<and>
     replace_template_variable t2 ''phone'' CUSTOM_PARAGRAPH_WITH_VARIABLE p = Inr t3 \<and>
     replace_template_variable t3 ''email'' NORMAL_REPLACEMENT p = Inr t4 \<and>
     (truthy (dict_get p ''technicalUser'') \<longrightarrow>
        build_signature t p =
          Inr (str_replace (str_replace t4 ''{company}'' COMPANY_NAME) ''{web}'' COMPANY_WEBSITE)) \<and>
     (\<not> truthy (dict_get p ''technicalUser'') \<longrightarrow>
        (\<exists>t5 t6 t7 t8 t9 t10 t11.
           replace_template_variable t4 ''firstName'' NORMAL_REPLACEMENT p = Inr t5 \<and>
           replace_template_variable t5 ''jobtitle'' NORMAL_REPLACEMENT p = Inr t6 \<and>
           replace_template_variable t6 ''managementRole'' CUSTOM_PARAGRAPH_WITH_VARIABLE p = Inr t7 \<and>
           replace_template_variable t7 ''pronouns'' CUSTOM_PARAGRAPH_WITH_VARIABLE p = Inr t8 \<and>
           replace_template_variable t8 ''gernePerDu'' CUSTOM_PARAGRAPH_WITHOUT_VARIABLE p = Inr t9 \<and>
           replace_template_variable t9 ''conditionalLineBreak'' CUSTOM_PARAGRAPH_WITHOUT_VARIABLE p = Inr t10 \<and>
           replace_template_variable t10 ''mobile'' CUSTOM_PARAGRAPH_WITH_VARIABLE p = Inr t11 \<and>
           build_signature t p =
             Inr (str_replace (str_replace t11 ''{company}'' COMPANY_NAME) ''{web}'' COMPANY_WEBSITE)))"
proof -
  note r = replace_template_variable_returns
  obtain t1 where 1: "replace_template_variable t ''lastName'' NORMAL_REPLACEMENT p = Inr t1"
    using r [OF field_keywords_literal(1)] by blast
  obtain t2 where 2: "replace_template_variable t1 ''address'' NORMAL_REPLACEMENT p = Inr t2"
    using r [OF field_keywords_literal(2)] by blast
  obtain t3 where 3: "replace_template_variable t2 ''phone'' CUSTOM_PARAGRAPH_WITH_VARIABLE p = Inr t3"
    using r [OF field_keywords_literal(3)] by blast
  obtain t4 where 4: "replace_template_variable t3 ''email'' NORMAL_REPLACEMENT p = Inr t4"
    using r [OF field_keywords_literal(4)] by blast
  obtain t5 where 5: "replace_template_variable t4 ''firstName'' NORMAL_REPLACEMENT p = Inr t5"
    using r [OF field_keywords_literal(5)] by blast
  obtain t6 where 6: "replace_template_variable t5 ''jobtitle'' NORMAL_REPLACEMENT p = Inr t6"
    using r [OF field_keywords_literal(6)] by blast
  obtain t7 where 7:
    "replace_template_variable t6 ''managementRole'' CUSTOM_PARAGRAPH_WITH_VARIABLE p = Inr t7"
    using r [OF field_keywords_literal(7)] by blast
  obtain t8 where 8:
    "replace_template_variable t7 ''pronouns'' CUSTOM_PARAGRAPH_WITH_VARIABLE p = Inr t8"
    using r [OF field_keywords_literal(8)] by blast
  obtain t9 where 9:
    "replace_template_variable t8 ''gernePerDu'' CUSTOM_PARAGRAPH_WITHOUT_VARIABLE p = Inr t9"
    using r [OF field_keywords_literal(9)] by blast
  obtain t10 where 10:
    "replace_template_variable t9 ''conditionalLineBreak'' CUSTOM_PARAGRAPH_WITHOUT_VARIABLE p = Inr t10"
    using r [OF field_keywords_literal(10)] by blast
  obtain t11 where 11:
    "replace_template_variable t10 ''mobile'' CUSTOM_PARAGRAPH_WITH_VARIABLE p = Inr t11"
    using r [OF field_keywords_literal(11)] by blast
  show ?thesis
    by (simp add: 1 2 3 4 5 6 7 8 9 10 11 build_signature_def replacements_for_def
        common_replacements_def additional_replacements_def)
qed

theorem build_signature_passes_witness:
  "build_signature ''{lastName} {web}'' [''technicalUser'' \<mapsto> PBool True, ''lastName'' \<mapsto> PStr ''IT'']
   = Inr ''IT http://www.kaiser-x.com/''
   \<and>
   build_signature ''{firstName}, {company}'' [''firstName'' \<mapsto> PStr ''Ana'']
   = Inr ''Ana, Kaiser X Labs''"
  using build_signature_passes
     [of "''{lastName} {web}''" "[''technicalUser'' \<mapsto> PBool True, ''lastName'' \<mapsto> PStr ''IT'']"]
    build_signature_passes
     [of "''{firstName}, {company}''" "[''firstName'' \<mapsto> PStr ''Ana'']"]
  by (simp add: engine_defs COMPANY_NAME_def COMPANY_WEBSITE_def)

section \<open>Conditional blocks\<close>

text \<open>
  C1, as stated: an opening marker with no closing marker makes the engine signal a
  template syntax error. The engine has no such error: with a falsy value the text comes
  back unchanged, with a truthy value the opening marker is removed, and both calls
  return normally.
\<close>

theorem unterminated_block_counterexample:
  "replace_template_variable ''Hi {phone/}Call me: {phone}'' ''phone''
     CUSTOM_PARAGRAPH_WITH_VARIABLE [''phone'' \<mapsto> PStr '''']
   = Inr ''Hi {phone/}Call me: {phone}''
   \<and> replace_template_variable ''{gernePerDu/}Feel free'' ''gernePerDu''
     CUSTOM_PARAGRAPH_WITHOUT_VARIABLE [''gernePerDu'' \<mapsto> PBool False]
   = Inr ''{gernePerDu/}Feel free''
   \<and> replace_template_variable ''Hi {phone/}Call me: {phone}'' ''phone''
     CUSTOM_PARAGRAPH_WITH_VARIABLE [''phone'' \<mapsto> PStr ''123'']
   = Inr ''Hi Call me: 123''"
  by (simp add: engine_defs)

text \<open>
  C1, amended: for every keyword without regex operator characters (all field keywords are
  such) and every text that contains the opening marker of the keyword and no closing
  marker, both conditional modes return the text unchanged when the value does not select
  the block (falsy for the mode with a variable, anything but \<open>True\<close> for the mode
  without), and the engine returns a text in every mode. \<open>build_signature\<close> returns a text
  for every template and every profile. No operation of the core signals a template
  syntax error.
\<close>

theorem unterminated_block_returns:
  assumes "regex_literal k" "sublist (open_tag k) text" "\<not> sublist (close_tag k) text"
  shows "(\<not> truthy (dict_get p k) \<longrightarrow>
            replace_template_variable text k CUSTOM_PARAGRAPH_WITH_VARIABLE p = Inr text)
       \<and> (dict_get p k \<noteq> PBool True \<longrightarrow>
            replace_template_variable text k CUSTOM_PARAGRAPH_WITHOUT_VARIABLE p = Inr text)
       \<and> (\<exists>s. replace_template_variable text k operator p = Inr s)
       \<and> (\<exists>s. build_signature text p = Inr s)"
  using assms(1) delete_blocks_no_close [OF assms(3)]
    replace_template_variable_returns [OF assms(1)] build_signature_returns
  by (simp add: replace_template_variable_def remove_everything_between_tags_def
      NORMAL_REPLACEMENT_def CUSTOM_PARAGRAPH_WITH_VARIABLE_def
      CUSTOM_PARAGRAPH_WITHOUT_VARIABLE_def)

theorem unterminated_block_returns_witness:
  "replace_template_variable ''Hi {phone/}Call me: {phone}'' ''phone''
     CUSTOM_PARAGRAPH_WITH_VARIABLE [''phone'' \<mapsto> PStr '''']
   = Inr ''Hi {phone/}Call me: {phone}''"
  using unterminated_block_returns
    [of "''phone''" "''Hi {phone/}Call me: {phone}''" "[''phone'' \<mapsto> PStr '''']"]
  by (simp add: open_tag_def close_tag_def regex_literal_def regex_operators_def dict_get_def
      sublist_code)





section \<open>Residual markers\<close>

text \<open>
  C6, as stated: whatever the profile, no marker of the active field list is left in the
  output. A profile with an empty phone leaves \<^verbatim>\<open>{phone}\<close> in place when the marker is
  not inside a phone block, since the mode with a variable then only deletes blocks; and a
  value that is itself the text of a marker is inserted as it is and not scanned again.
\<close>

theorem build_signature_counterexample:
  "build_signature ''Tel: {phone}'' [''technicalUser'' \<mapsto> PBool True, ''phone'' \<mapsto> PStr '''']
     = Inr ''Tel: {phone}''
   \<and> build_signature ''{lastName}''
       [''technicalUser'' \<mapsto> PBool True, ''lastName'' \<mapsto> PStr ''{lastName}'']
     = Inr ''{lastName}''"
  by (simp add: build_signature_def replacements_for_def common_replacements_def engine_defs
      COMPANY_NAME_def COMPANY_WEBSITE_def)

text \<open>
  C6, amended: for every profile whose values for the keywords of the active field list
  hold no brace, and every template that is well-formed for that list (its braces delimit
  markers only; its blocks are properly nested, none inside a block of the same keyword;
  every substitute marker names a keyword of the normal mode or of the mode with a
  variable, \<^verbatim>\<open>company\<close> or \<^verbatim>\<open>web\<close>; every block names a keyword of a conditional mode;
  every substitute marker of a keyword of the mode with a variable lies inside a block of
  that keyword), \<open>build_signature\<close> returns a text without any brace: no substitute,
  opening or closing marker of any keyword is left in it.
\<close>

theorem build_signature_resolves_markers:
  assumes "well_formed (replacements_for p) items" "values_ok p (replacements_for p)"
  shows "\<exists>out. build_signature (render items) p = Inr out \<and> brace_free out \<and>
           (\<forall>k. \<not> sublist (var_tag k) out \<and> \<not> sublist (open_tag k) out \<and>
                \<not> sublist (close_tag k) out)"
proof -
  let ?rs = "replacements_for p"
  let ?a = "fold (pass p) ?rs items"
  let ?b = "fill ''company'' COMPANY_NAME ?a"
  let ?c = "fill ''web'' COMPANY_WEBSITE ?b"
  from assms(1) have rd: "ready ?rs items"
    and vs: "vars items \<subseteq> substituted ?rs \<union> {''company'', ''web''}"
    and bs: "blocks items \<subseteq> conditional ?rs"
    by (simp_all add: well_formed_def)
  have run: "apply_replacements ?rs (render items) p = Inr (render ?a)"
    by (rule apply_replacements_render [OF rd assms(2)])
  from fold_pass_sets [OF rd assms(2)]
  have a: "names_ok ?a" "vars ?a \<subseteq> vars items - substituted ?rs"
    "blocks ?a \<subseteq> blocks items - conditional ?rs" by simp_all
  have b: "names_ok ?b" by (rule names_ok_fill [OF a(1) constants_plain(3)])
  have c: "names_ok ?c" by (rule names_ok_fill [OF b constants_plain(4)])
  have 1: "str_replace (render ?a) ''{company}'' COMPANY_NAME = render ?b"
    using fill_render [OF a(1) constants_plain(1), of COMPANY_NAME] by (simp add: var_tag_def)
  have 2: "str_replace (render ?b) ''{web}'' COMPANY_WEBSITE = render ?c"
    using fill_render [OF b constants_plain(2), of COMPANY_WEBSITE] by (simp add: var_tag_def)
  have out: "build_signature (render items) p = Inr (render ?c)"
    by (simp add: build_signature_def run 1 2)
  have "vars ?c = {}" using a(2) vs by auto
  moreover have "blocks ?c = {}" using a(3) bs by auto
  ultimately have "brace_free (render ?c)" using c by (simp add: only_literals)
  with out brace_free_no_marker show ?thesis by blast
qed

theorem build_signature_resolves_markers_witness:
  "well_formed
     (replacements_for [''firstName'' \<mapsto> PStr ''Ana'', ''phone'' \<mapsto> PStr ''''])
     [Var ''firstName'', Lit CHR '' '',
      Block ''phone'' [Lit CHR ''T'', Var ''phone'', Block ''mobile'' [Var ''mobile'']],
      Var ''company'']
   \<and> values_ok [''firstName'' \<mapsto> PStr ''Ana'', ''phone'' \<mapsto> PStr '''']
       (replacements_for [''firstName'' \<mapsto> PStr ''Ana'', ''phone'' \<mapsto> PStr ''''])
   \<and> (\<exists>out. build_signature ''{firstName} {phone/}T{phone}{mobile/}{mobile}{/mobile}{/phone}{company}''
               [''firstName'' \<mapsto> PStr ''Ana'', ''phone'' \<mapsto> PStr ''''] = Inr out
            \<and> brace_free out)"
proof -
  let ?p = "[''firstName'' \<mapsto> PStr ''Ana'', ''phone'' \<mapsto> PStr '''']"
  let ?t = "[Var ''firstName'', Lit CHR '' '',
      Block ''phone'' [Lit CHR ''T'', Var ''phone'', Block ''mobile'' [Var ''mobile'']],
      Var ''company'']"
  have rs: "replacements_for ?p = common_replacements @ additional_replacements"
    by (simp add: replacements_for_def dict_get_def)
  have h1: "well_formed (replacements_for ?p) ?t"
    unfolding rs
    by (simp add: well_formed_def ready_def substituted_def conditional_def plain_def
        regex_literal_def regex_operators_def common_replacements_def
        additional_replacements_def)
  have h2: "values_ok ?p (replacements_for ?p)"
    unfolding rs
    by (simp add: values_ok_def common_replacements_def additional_replacements_def
        dict_get_def brace_free_def)
  have r: "render ?t = ''{firstName} {phone/}T{phone}{mobile/}{mobile}{/mobile}{/phone}{company}''"
    by (simp add: render_def)
  from build_signature_resolves_markers [OF h1 h2] h1 h2 show ?thesis
    unfolding r by blast
qed

end
